theory Spec2Isabelle
  imports Complex_Main
begin

section \<open>The order-7 polyharmonic kernel of \<^verbatim>\<open>wrapped_code_4.c\<close>\<close>

text \<open>
  The file \<^verbatim>\<open>src/rbf/_rbf_ufuncs/wrapped_code_4.c\<close> holds one function,
  \<^verbatim>\<open>autofunc0\<close>, over C \<^verbatim>\<open>double\<close>s.  The embedding keeps the arithmetic
  of the code: IEEE 754 binary64 values, every operation rounded to nearest with ties to
  even, overflow to an infinity, gradual underflow to zero, and NaN.
\<close>

subsection \<open>Binary64 values\<close>

text \<open>
  A \<^verbatim>\<open>double\<close> is a finite value, one of the two infinities, or NaN.  The finite
  doubles are the \<open>Fin v\<close> with \<open>is_double v\<close>: rounding returns such a value whenever
  it returns a finite one, and a statement proved for every \<open>Fin v\<close> holds for every
  finite double.  The two zeros \<^verbatim>\<open>+0.0\<close> and \<^verbatim>\<open>-0.0\<close> are
  the one value \<open>Fin 0\<close>: the code negates, adds, multiplies, takes roots and
  positive powers, and compares, and none of these tells the two zeros apart other than
  by the sign of a zero it returns.
\<close>

datatype double = Fin real | PInf | NInf | NaN

text \<open>\<open>two_p n\<close> is \<open>2\<close> to the power \<open>n\<close>, for any integer \<open>n\<close>.\<close>

definition two_p :: "int \<Rightarrow> real" where
  "two_p n = 2 powi n"

text \<open>
  The finite doubles: an integer significand below \<open>2\<^sup>5\<^sup>3\<close> in magnitude, scaled by a
  power of two from \<open>2\<^sup>-\<^sup>1\<^sup>0\<^sup>7\<^sup>4\<close> (the subnormal unit) to \<open>2\<^sup>9\<^sup>7\<^sup>1\<close>.
\<close>

definition is_double :: "real \<Rightarrow> bool" where
  "is_double v \<longleftrightarrow>
     (\<exists>m e. \<bar>m\<bar> < 2 ^ 53 \<and> - 1074 \<le> e \<and> e \<le> 971 \<and> v = of_int m * two_p e)"

text \<open>The nearest integer, a tie going to the even one.\<close>

definition round_even :: "real \<Rightarrow> int" where
  "round_even t =
     (let f = \<lfloor>t\<rfloor>; d = t - of_int f in
      if d < 1 / 2 then f
      else if 1 / 2 < d then f + 1
      else if even f then f else f + 1)"

text \<open>
  The exponent of the binade of a nonzero \<open>v\<close>, no smaller than that of the least normal
  number: below \<open>2\<^sup>-\<^sup>1\<^sup>0\<^sup>2\<^sup>2\<close> the doubles are evenly spaced.
\<close>

definition binade :: "real \<Rightarrow> int" where
  "binade v = max \<lfloor>log 2 \<bar>v\<bar>\<rfloor> (- 1022)"

text \<open>
  Rounding a real number to binary64, to nearest with ties to even: the significand is
  rounded to an integer of 53 bits at the spacing of the binade, and a result of
  magnitude \<open>2\<^sup>1\<^sup>0\<^sup>2\<^sup>4\<close> or more is an infinity.
\<close>

definition round64 :: "real \<Rightarrow> double" where
  "round64 v =
     (if v = 0 then Fin 0
      else
        let q = two_p (binade v - 52);
            w = of_int (round_even (v / q)) * q
        in if two_p 1024 \<le> \<bar>w\<bar> then (if 0 < v then PInf else NInf) else Fin w)"

subsection \<open>The operations of the code\<close>

text \<open>Unary minus is exact.\<close>

fun neg_d :: "double \<Rightarrow> double" where
  "neg_d (Fin a) = Fin (- a)"
| "neg_d PInf = NInf"
| "neg_d NInf = PInf"
| "neg_d NaN = NaN"

text \<open>Addition: the exact sum rounded; infinities of opposite sign give NaN.\<close>

fun add_d :: "double \<Rightarrow> double \<Rightarrow> double" where
  "add_d (Fin a) (Fin b) = round64 (a + b)"
| "add_d NaN b = NaN"
| "add_d a NaN = NaN"
| "add_d PInf NInf = NaN"
| "add_d NInf PInf = NaN"
| "add_d PInf b = PInf"
| "add_d a PInf = PInf"
| "add_d NInf b = NInf"
| "add_d a NInf = NInf"

text \<open>Multiplication: the exact product rounded; an infinity times zero is NaN.\<close>

fun mul_d :: "double \<Rightarrow> double \<Rightarrow> double" where
  "mul_d (Fin a) (Fin b) = round64 (a * b)"
| "mul_d NaN b = NaN"
| "mul_d a NaN = NaN"
| "mul_d (Fin a) PInf = (if a = 0 then NaN else if 0 < a then PInf else NInf)"
| "mul_d (Fin a) NInf = (if a = 0 then NaN else if 0 < a then NInf else PInf)"
| "mul_d PInf (Fin b) = (if b = 0 then NaN else if 0 < b then PInf else NInf)"
| "mul_d NInf (Fin b) = (if b = 0 then NaN else if 0 < b then NInf else PInf)"
| "mul_d PInf PInf = PInf"
| "mul_d PInf NInf = NInf"
| "mul_d NInf PInf = NInf"
| "mul_d NInf NInf = PInf"

text \<open>
  \<^verbatim>\<open>sqrt\<close>, correctly rounded as IEEE 754 requires: NaN for a negative argument.
\<close>

fun sqrt_d :: "double \<Rightarrow> double" where
  "sqrt_d (Fin a) = (if a < 0 then NaN else round64 (sqrt a))"
| "sqrt_d PInf = PInf"
| "sqrt_d NInf = NaN"
| "sqrt_d NaN = NaN"

text \<open>
  \<^verbatim>\<open>pow(x, y)\<close> for a finite exponent \<open>y\<close>, case by case as C99 F.9.4.4 lists them;
  the code's exponents are the constants \<open>2\<close>, \<open>7\<close> and \<open>7/2\<close>.  C leaves the
  accuracy of \<^verbatim>\<open>pow\<close> to the library; here the result is the exact power rounded to
  nearest, as a correctly rounded \<^verbatim>\<open>pow\<close> returns it.  A library \<^verbatim>\<open>pow\<close> whose
  error is below one unit in the last place returns the same value wherever the exact
  power is a double, and may return a neighbouring double elsewhere.  For a zero base
  and a negative odd integer exponent the result in C takes the sign of the zero; here
  it is \<open>PInf\<close>.
\<close>

fun pow :: "double \<Rightarrow> real \<Rightarrow> double" where
  "pow (Fin x) y =
     (if y = 0 then Fin 1
      else if x = 0 then (if 0 < y then Fin 0 else PInf)
      else if y = of_int \<lfloor>y\<rfloor> then round64 (x powi \<lfloor>y\<rfloor>)
      else if x < 0 then NaN
      else round64 (x powr y))"
| "pow PInf y = (if y = 0 then Fin 1 else if 0 < y then PInf else Fin 0)"
| "pow NInf y =
     (if y = 0 then Fin 1
      else if 0 < y then (if y = of_int \<lfloor>y\<rfloor> \<and> odd \<lfloor>y\<rfloor> then NInf else PInf)
      else Fin 0)"
| "pow NaN y = (if y = 0 then Fin 1 else NaN)"

text \<open>The comparisons \<^verbatim>\<open><=\<close>, \<^verbatim>\<open><\<close> and \<^verbatim>\<open>==\<close>: false whenever an operand is NaN.\<close>

fun le_d :: "double \<Rightarrow> double \<Rightarrow> bool" where
  "le_d (Fin a) (Fin b) = (a \<le> b)"
| "le_d NaN b = False"
| "le_d a NaN = False"
| "le_d NInf b = True"
| "le_d a PInf = True"
| "le_d PInf b = False"
| "le_d a NInf = False"

fun lt_d :: "double \<Rightarrow> double \<Rightarrow> bool" where
  "lt_d (Fin a) (Fin b) = (a < b)"
| "lt_d NaN b = False"
| "lt_d a NaN = False"
| "lt_d PInf b = False"
| "lt_d a NInf = False"
| "lt_d NInf b = True"
| "lt_d a PInf = True"

fun eq_d :: "double \<Rightarrow> double \<Rightarrow> bool" where
  "eq_d NaN b = False"
| "eq_d a NaN = False"
| "eq_d a b = (a = b)"


subsection \<open>\<^verbatim>\<open>autofunc0\<close>\<close>

text \<open>
  The body of \<^verbatim>\<open>autofunc0\<close>, expression by expression: \<^verbatim>\<open>-c0 + x0\<close> is the
  negation of \<^verbatim>\<open>c0\<close> added to \<^verbatim>\<open>x0\<close>, the guard compares the rounded root with
  \<^verbatim>\<open>0.0\<close>, and the \<^verbatim>\<open>else\<close> branch evaluates the squared distance again, as the
  source does.  A NaN root fails the comparison and takes the \<^verbatim>\<open>else\<close> branch.
\<close>

definition autofunc0 :: "double \<Rightarrow> double \<Rightarrow> double \<Rightarrow> double \<Rightarrow> double \<Rightarrow> double" where
  "autofunc0 x0 x1 c0 c1 eps =
     (if le_d (sqrt_d (add_d (pow (add_d (neg_d c0) x0) 2) (pow (add_d (neg_d c1) x1) 2)))
           (Fin 0.0)
      then Fin 0
      else mul_d (pow eps 7)
             (pow (add_d (pow (add_d (neg_d c0) x0) 2) (pow (add_d (neg_d c1) x1) 2))
                (7.0 / 2.0)))"


subsection \<open>The quantities of the specification\<close>

text \<open>The Euclidean distance, \<open>r = sqrt ((x0 - c0)\<^sup>2 + (x1 - c1)\<^sup>2)\<close>, in the reals.\<close>

definition distance :: "real \<Rightarrow> real \<Rightarrow> real \<Rightarrow> real \<Rightarrow> real" where
  "distance x0 x1 c0 c1 = sqrt ((x0 - c0)\<^sup>2 + (x1 - c1)\<^sup>2)"

text \<open>
  An input at which no operation of \<^verbatim>\<open>autofunc0\<close> rounds: every intermediate
  result, taken exactly, is a double.
\<close>

definition exact_path :: "real \<Rightarrow> real \<Rightarrow> real \<Rightarrow> real \<Rightarrow> real \<Rightarrow> bool" where
  "exact_path x0 x1 c0 c1 eps \<longleftrightarrow>
     is_double (x0 - c0) \<and> is_double (x1 - c1) \<and>
     is_double ((x0 - c0)\<^sup>2) \<and> is_double ((x1 - c1)\<^sup>2) \<and>
     is_double ((x0 - c0)\<^sup>2 + (x1 - c1)\<^sup>2) \<and>
     is_double (distance x0 x1 c0 c1) \<and>
     is_double (eps ^ 7) \<and>
     is_double (distance x0 x1 c0 c1 ^ 7) \<and>
     is_double (eps ^ 7 * distance x0 x1 c0 c1 ^ 7)"

section \<open>Powers of two\<close>

lemma two_p_pos [simp]: "0 < two_p n"
  by (simp add: two_p_def)

lemma two_p_nonneg [simp]: "0 \<le> two_p n"
  by (rule less_imp_le) simp

lemma two_p_neq0 [simp]: "two_p n \<noteq> 0"
  using two_p_pos [of n] by arith

lemma two_p_0 [simp]: "two_p 0 = 1"
  by (simp add: two_p_def)

lemma two_p_add: "two_p (a + b) = two_p a * two_p b"
  unfolding two_p_def by (rule power_int_add) simp

lemma two_p_diff: "two_p (a - b) = two_p a / two_p b"
proof -
  have "two_p a = two_p (a - b) * two_p b"
    using two_p_add [of "a - b" b] by simp
  then show ?thesis by simp
qed

lemma two_p_le_iff [simp]: "two_p a \<le> two_p b \<longleftrightarrow> a \<le> b"
proof
  assume le: "two_p a \<le> two_p b"
  show "a \<le> b"
  proof (rule ccontr)
    assume "\<not> a \<le> b"
    then have "b < a" by simp
    then have "two_p b < two_p a"
      unfolding two_p_def by (rule power_int_strict_increasing) simp
    with le show False by simp
  qed
next
  assume "a \<le> b"
  then show "two_p a \<le> two_p b"
    unfolding two_p_def by (rule power_int_increasing) simp
qed

lemma two_p_less_iff [simp]: "two_p a < two_p b \<longleftrightarrow> a < b"
  using two_p_le_iff [of b a] by (simp only: not_le [symmetric])

lemma two_p_nat: "0 \<le> n \<Longrightarrow> two_p n = 2 ^ nat n"
  by (simp add: two_p_def power_int_def)

lemma two_p_powr: "two_p n = 2 powr of_int n"
  by (simp add: two_p_def powr_real_of_int')

lemma floor_log_two_p:
  assumes "two_p n \<le> x" and "x < two_p (n + 1)"
  shows "\<lfloor>log 2 x\<rfloor> = n"
proof -
  have "0 < x" using assms(1) two_p_pos [of n] by linarith
  then show ?thesis
    using assms by (simp add: floor_log_eq_powr_iff two_p_powr)
qed

lemma two_p_floor_log:
  assumes "0 < x"
  shows "two_p \<lfloor>log 2 x\<rfloor> \<le> x \<and> x < two_p (\<lfloor>log 2 x\<rfloor> + 1)"
  using floor_log_eq_powr_iff [of x 2 "\<lfloor>log 2 x\<rfloor>"] assms
  by (simp add: two_p_powr)

section \<open>Rounding to the nearest integer\<close>

lemma round_even_of_int [simp]: "round_even (of_int n) = n"
  by (simp add: round_even_def)

lemma round_even_ge: "of_int n \<le> t \<Longrightarrow> n \<le> round_even t"
proof -
  assume "of_int n \<le> t"
  then have "n \<le> \<lfloor>t\<rfloor>" by (simp add: le_floor_iff)
  then show ?thesis by (simp add: round_even_def Let_def)
qed

lemma round_even_le: "t \<le> of_int n \<Longrightarrow> round_even t \<le> n"
proof -
  assume le: "t \<le> of_int n"
  show ?thesis
  proof (cases "t = of_int n")
    case True
    then show ?thesis by simp
  next
    case False
    with le have "t < of_int n" by simp
    then have "\<lfloor>t\<rfloor> < n" by (simp add: floor_less_iff)
    then show ?thesis by (simp add: round_even_def Let_def)
  qed
qed

lemma round_even_uminus: "round_even (- t) = - round_even t"
proof (cases "t = of_int \<lfloor>t\<rfloor>")
  case True
  then have "round_even t = \<lfloor>t\<rfloor>" by (metis round_even_of_int)
  moreover from True have "- t = of_int (- \<lfloor>t\<rfloor>)" by simp
  then have "round_even (- t) = - \<lfloor>t\<rfloor>" by (metis round_even_of_int)
  ultimately show ?thesis by simp
next
  case False
  then have fl: "\<lfloor>- t\<rfloor> = - \<lfloor>t\<rfloor> - 1"
    by (simp add: floor_minus ceiling_altdef)
  show ?thesis
    unfolding round_even_def Let_def fl
    by (auto simp add: algebra_simps)
qed

lemma round_even_zero_iff: "round_even t = 0 \<longleftrightarrow> \<bar>t\<bar> \<le> 1 / 2"
proof
  assume z: "round_even t = 0"
  define f where "f = \<lfloor>t\<rfloor>"
  have b: "of_int f \<le> t" "t < of_int f + 1"
    unfolding f_def by linarith+
  from z have "(t - of_int f \<le> 1 / 2 \<and> f = 0) \<or> (1 / 2 \<le> t - of_int f \<and> f = - 1)"
    unfolding round_even_def Let_def f_def [symmetric]
    by (auto split: if_splits)
  with b show "\<bar>t\<bar> \<le> 1 / 2" by auto

next
  assume a: "\<bar>t\<bar> \<le> 1 / 2"
  then have "\<lfloor>t\<rfloor> = 0 \<or> \<lfloor>t\<rfloor> = - 1"
    by (simp add: floor_eq_iff) linarith
  then show "round_even t = 0"
  proof
    assume "\<lfloor>t\<rfloor> = 0"
    with a show ?thesis unfolding round_even_def Let_def by auto
  next
    assume "\<lfloor>t\<rfloor> = - 1"
    moreover from this have "t < 0" by (simp add: floor_eq_iff)
    ultimately show ?thesis using a unfolding round_even_def Let_def by auto
  qed
qed


section \<open>Binades and rounding to binary64\<close>

lemma two_p_not_le0 [simp]: "\<not> two_p n \<le> 0"
  using two_p_pos [of n] by arith

lemma two_p_not_less0 [simp]: "\<not> two_p n < 0"
  using two_p_pos [of n] by arith

lemma binade_uminus: "binade (- v) = binade v"
  by (simp add: binade_def)

lemma binade_upper:
  assumes "v \<noteq> 0"
  shows "\<bar>v\<bar> < two_p (binade v + 1)"
proof -
  from assms have "0 < \<bar>v\<bar>" by simp
  then have "\<bar>v\<bar> < two_p (\<lfloor>log 2 \<bar>v\<bar>\<rfloor> + 1)"
    by (simp add: two_p_floor_log)
  also have "\<dots> \<le> two_p (binade v + 1)"
    by (simp add: binade_def)
  finally show ?thesis .
qed

lemma binade_eq:
  assumes "two_p E \<le> \<bar>v\<bar>" and "\<bar>v\<bar> < two_p (E + 1)" and "- 1022 \<le> E"
  shows "binade v = E"
  using assms by (simp add: binade_def floor_log_two_p)

lemma binade_lower:
  assumes "two_p (- 1022) \<le> \<bar>v\<bar>"
  shows "two_p (binade v) \<le> \<bar>v\<bar>"
proof -
  have pos: "0 < \<bar>v\<bar>" using assms two_p_pos [of "- 1022"] by linarith
  define n where "n = \<lfloor>log 2 \<bar>v\<bar>\<rfloor>"
  from pos have n: "two_p n \<le> \<bar>v\<bar>" "\<bar>v\<bar> < two_p (n + 1)"
    unfolding n_def by (simp_all add: two_p_floor_log)
  from assms n(2) have "two_p (- 1022) < two_p (n + 1)" by linarith
  then have "- 1022 \<le> n" by simp
  then have "binade v = n" by (simp add: binade_def n_def)
  with n(1) show ?thesis by simp
qed

lemma binade_small:
  assumes "v \<noteq> 0" and "\<bar>v\<bar> < two_p (- 1022)"
  shows "binade v = - 1022"
proof -
  from assms(1) have pos: "0 < \<bar>v\<bar>" by simp
  define n where "n = \<lfloor>log 2 \<bar>v\<bar>\<rfloor>"
  from pos have "two_p n \<le> \<bar>v\<bar>"
    unfolding n_def by (simp add: two_p_floor_log)
  with assms(2) have "two_p n < two_p (- 1022)" by linarith
  then have "n < - 1022" by simp
  then show ?thesis by (simp add: binade_def n_def)
qed

text \<open>The significand before rounding, \<open>v\<close> over the spacing of its binade.\<close>

lemma significand_upper:
  assumes "v \<noteq> 0"
  shows "\<bar>v / two_p (binade v - 52)\<bar> < two_p 53"
proof -
  have "two_p (binade v + 1) = two_p 53 * two_p (binade v - 52)"
    using two_p_add [of 53 "binade v - 52"] by (simp add: add.commute)
  with binade_upper [OF assms] have "\<bar>v\<bar> < two_p 53 * two_p (binade v - 52)" by simp
  then have "\<bar>v\<bar> / two_p (binade v - 52) < two_p 53"
    by (simp add: pos_divide_less_eq)
  then show ?thesis by simp
qed

lemma significand_lower:
  assumes "two_p (- 1022) \<le> \<bar>v\<bar>"
  shows "two_p 52 \<le> \<bar>v / two_p (binade v - 52)\<bar>"
proof -
  have "two_p (binade v) = two_p 52 * two_p (binade v - 52)"
    using two_p_add [of 52 "binade v - 52"] by simp
  with binade_lower [OF assms] have "two_p 52 * two_p (binade v - 52) \<le> \<bar>v\<bar>" by simp
  then have "two_p 52 \<le> \<bar>v\<bar> / two_p (binade v - 52)"
    by (simp add: pos_le_divide_eq)
  then show ?thesis by simp
qed

lemma two_p_52: "two_p 52 = of_int (2 ^ 52)"
  by (simp add: two_p_nat)

lemma two_p_53: "two_p 53 = of_int (2 ^ 53)"
  by (simp add: two_p_nat)

lemma round64_0 [simp]: "round64 0 = Fin 0"
  by (simp add: round64_def)

lemma round64_uminus: "round64 (- v) = neg_d (round64 v)"
proof (cases "v = 0")
  case True
  then show ?thesis by simp
next
  case False
  then show ?thesis
    by (simp add: round64_def Let_def binade_uminus round_even_uminus)
qed

lemma round64_nonneg:
  assumes "0 \<le> v"
  shows "le_d (Fin 0) (round64 v)"
proof (cases "v = 0")
  case True
  then show ?thesis by simp
next
  case False
  with assms have "0 \<le> v / two_p (binade v - 52)" by simp
  then have "0 \<le> round_even (v / two_p (binade v - 52))"
    using round_even_ge [of 0] by simp
  then have "0 \<le> of_int (round_even (v / two_p (binade v - 52))) * two_p (binade v - 52)"
    by simp
  with False assms show ?thesis
    by (simp add: round64_def Let_def)
qed

lemma round64_overflow:
  assumes "two_p 1024 \<le> v"
  shows "round64 v = PInf"
proof -
  have pos: "0 < v" using assms two_p_pos [of 1024] by linarith
  then have ne: "v \<noteq> 0" and av: "\<bar>v\<bar> = v" by simp_all
  define q where "q = two_p (binade v - 52)"
  have qpos: "0 < q" by (simp add: q_def)
  have "two_p (- 1022) \<le> two_p 1024" by simp
  with assms av have norm: "two_p (- 1022) \<le> \<bar>v\<bar>" by linarith
  from significand_lower [OF norm] pos have "of_int (2 ^ 52) \<le> v / q"
    by (simp add: q_def two_p_52)
  then have m: "2 ^ 52 \<le> round_even (v / q)" by (rule round_even_ge)
  from binade_upper [OF ne] assms av have "two_p 1024 < two_p (binade v + 1)" by linarith
  then have b: "1024 \<le> binade v" by simp
  have "two_p 1024 \<le> two_p (binade v)" using b by simp
  also have "\<dots> = two_p 52 * q"
    using two_p_add [of 52 "binade v - 52"] by (simp add: q_def)
  also have "\<dots> \<le> of_int (round_even (v / q)) * q"
  proof -
    from m have "(of_int (2 ^ 52) :: real) \<le> of_int (round_even (v / q))"
      by (simp only: of_int_le_iff)
    then show ?thesis using qpos by (simp add: two_p_52)
  qed
  finally have "two_p 1024 \<le> \<bar>of_int (round_even (v / q)) * q\<bar>" by simp
  with ne pos show ?thesis
    by (simp add: round64_def Let_def q_def)
qed

lemma round64_underflow:
  assumes "\<bar>v\<bar> \<le> two_p (- 1075)"
  shows "round64 v = Fin 0"
proof (cases "v = 0")
  case True
  then show ?thesis by simp
next
  case False
  have "two_p (- 1075) < two_p (- 1022)" by simp
  with assms have "\<bar>v\<bar> < two_p (- 1022)" by linarith
  with False have b: "binade v = - 1022" by (rule binade_small)
  have "two_p (- 1075) = (1 / 2) * two_p (- 1074)"
    using two_p_diff [of "- 1074" 1] by (simp add: two_p_nat)
  with assms have "\<bar>v\<bar> \<le> (1 / 2) * two_p (- 1074)" by simp
  then have "\<bar>v\<bar> / two_p (- 1074) \<le> 1 / 2"
    by (simp add: pos_divide_le_eq)
  then have "\<bar>v / two_p (- 1074)\<bar> \<le> 1 / 2" by simp
  then have "round_even (v / two_p (- 1074)) = 0" by (simp add: round_even_zero_iff)
  with False show ?thesis
    by (simp add: round64_def Let_def b)
qed


section \<open>Doubles round to themselves\<close>

lemma is_doubleI:
  "\<bar>m\<bar> < 2 ^ 53 \<Longrightarrow> - 1074 \<le> e \<Longrightarrow> e \<le> 971 \<Longrightarrow> is_double (of_int m * two_p e)"
  unfolding is_double_def by blast

lemma round64_exact:
  assumes "is_double v"
  shows "round64 v = Fin v"
proof (cases "v = 0")
  case True
  then show ?thesis by simp
next
  case False
  from assms obtain m e where m: "\<bar>m\<bar> < 2 ^ 53" and e: "- 1074 \<le> e" "e \<le> 971"
    and v: "v = of_int m * two_p e"
    unfolding is_double_def by blast
  define b where "b = binade v"
  define k where "k = e + 52 - b"
  have "\<bar>of_int m :: real\<bar> < of_int (2 ^ 53)"
    using m by (simp only: of_int_abs [symmetric] of_int_less_iff)
  then have "\<bar>of_int m :: real\<bar> < two_p 53" by (simp add: two_p_53)
  then have "\<bar>of_int m :: real\<bar> * two_p e < two_p 53 * two_p e"
    by (simp add: mult_strict_right_mono)
  then have vlt: "\<bar>v\<bar> < two_p (e + 53)"
    by (simp add: v abs_mult two_p_add [of 53 e, symmetric] add.commute)
  have "b \<le> e + 52"
  proof -
    from False have "0 < \<bar>v\<bar>" by simp
    then have "two_p \<lfloor>log 2 \<bar>v\<bar>\<rfloor> \<le> \<bar>v\<bar>" by (simp add: two_p_floor_log)
    with vlt have "two_p \<lfloor>log 2 \<bar>v\<bar>\<rfloor> < two_p (e + 53)" by linarith
    then have "\<lfloor>log 2 \<bar>v\<bar>\<rfloor> \<le> e + 52" by simp
    with e(1) show ?thesis by (simp add: b_def binade_def)
  qed
  then have k: "0 \<le> k" by (simp add: k_def)
  have "two_p e = two_p k * two_p (b - 52)"
    using two_p_add [of k "b - 52"] by (simp add: k_def)
  then have "v / two_p (b - 52) = of_int m * two_p k"
    by (simp add: v)
  also have "\<dots> = of_int (m * 2 ^ nat k)"
    using k by (simp add: two_p_nat)
  finally have t: "v / two_p (b - 52) = of_int (m * 2 ^ nat k)" .
  have w: "of_int (round_even (v / two_p (b - 52))) * two_p (b - 52) = v"
  proof -
    have "of_int (round_even (v / two_p (b - 52))) * two_p (b - 52)
        = (v / two_p (b - 52)) * two_p (b - 52)"
      by (simp only: t round_even_of_int)
    then show ?thesis by simp
  qed
  have "two_p (e + 53) \<le> two_p 1024" using e(2) by simp
  with vlt have "\<not> two_p 1024 \<le> \<bar>v\<bar>" by linarith
  with False w show ?thesis
    by (simp add: round64_def Let_def b_def [symmetric])
qed

lemma round_even_abs_le:
  assumes "\<bar>t\<bar> \<le> of_int n"
  shows "\<bar>round_even t\<bar> \<le> n"
proof -
  from assms have "t \<le> of_int n" and "of_int (- n) \<le> t" by simp_all
  then have "round_even t \<le> n" and "- n \<le> round_even t"
    by (simp_all only: round_even_le round_even_ge)
  then show ?thesis by simp
qed

lemma round64_in_binade:
  assumes "two_p E \<le> \<bar>v\<bar>" and "\<bar>v\<bar> < two_p (E + 1)" and "- 1022 \<le> E" and "E < 1023"
  shows "round64 v = Fin (of_int (round_even (v / two_p (E - 52))) * two_p (E - 52))"
proof -
  have ne: "v \<noteq> 0" using assms(1) two_p_pos [of E] by auto
  have b: "binade v = E" using assms(1-3) by (rule binade_eq)
  define m where "m = round_even (v / two_p (E - 52))"
  from significand_upper [OF ne] have "\<bar>v / two_p (E - 52)\<bar> \<le> of_int (2 ^ 53)"
    by (simp add: b two_p_53)
  then have "\<bar>m\<bar> \<le> 2 ^ 53" unfolding m_def by (rule round_even_abs_le)
  then have "\<bar>of_int m :: real\<bar> \<le> of_int (2 ^ 53)"
    by (simp only: of_int_abs [symmetric] of_int_le_iff)
  then have "\<bar>of_int m :: real\<bar> \<le> two_p 53" by (simp add: two_p_53)
  then have "\<bar>of_int m :: real\<bar> * two_p (E - 52) \<le> two_p 53 * two_p (E - 52)"
    by (simp add: mult_right_mono)
  also have "\<dots> = two_p (E + 1)"
    using two_p_add [of 53 "E - 52"] by (simp add: add.commute)
  also have "\<dots> < two_p 1024" using assms(4) by simp
  finally have "\<not> two_p 1024 \<le> \<bar>of_int m * two_p (E - 52)\<bar>"
    by (simp add: abs_mult)
  with ne show ?thesis
    by (simp add: round64_def Let_def b m_def)
qed

lemma is_double_of_int: "\<bar>n\<bar> < 2 ^ 53 \<Longrightarrow> is_double (of_int n)"
  using is_doubleI [of n 0] by simp

lemma is_double_0 [simp]: "is_double 0"
  using is_double_of_int [of 0] by simp

lemma is_double_1 [simp]: "is_double 1"
  using is_double_of_int [of 1] by simp

lemma is_double_numeral: "numeral k < (2::int) ^ 53 \<Longrightarrow> is_double (numeral k)"
  using is_double_of_int [of "numeral k"] by simp

lemma is_double_two_p:
  assumes "- 1074 \<le> n" and "n \<le> 1023"
  shows "is_double (two_p n)"
proof (cases "n \<le> 971")
  case True
  with assms(1) show ?thesis using is_doubleI [of 1 n] by simp
next
  case False
  then have k: "0 \<le> n - 971" "n - 971 \<le> 52" using assms(2) by simp_all
  have "(2::int) ^ nat (n - 971) \<le> 2 ^ 52"
    using k by (intro power_increasing) simp_all
  then have "\<bar>(2::int) ^ nat (n - 971)\<bar> < 2 ^ 53" by simp
  then have "is_double (of_int (2 ^ nat (n - 971)) * two_p 971)"
    by (rule is_doubleI) simp_all
  moreover have "two_p n = of_int (2 ^ nat (n - 971)) * two_p 971"
    using two_p_add [of "n - 971" 971] k(1) by (simp add: two_p_nat)
  ultimately show ?thesis by simp
qed

lemma binade_ge: "- 1022 \<le> binade v"
  by (simp add: binade_def)

lemma is_double_uminus: "is_double v \<Longrightarrow> is_double (- v)"
proof -
  assume "is_double v"
  then obtain m e where "\<bar>m\<bar> < 2 ^ 53" "- 1074 \<le> e" "e \<le> 971" "v = of_int m * two_p e"
    unfolding is_double_def by blast
  then have "\<bar>- m\<bar> < 2 ^ 53" and "- v = of_int (- m) * two_p e" by simp_all
  with \<open>- 1074 \<le> e\<close> \<open>e \<le> 971\<close> show ?thesis
    unfolding is_double_def by blast
qed

text \<open>Rounding returns a double whenever it returns a finite value.\<close>

lemma round64_is_double:
  assumes "round64 v = Fin w"
  shows "is_double w"
proof (cases "v = 0")
  case True
  with assms show ?thesis by simp
next
  case False
  define b where "b = binade v"
  define q where "q = two_p (b - 52)"
  define m where "m = round_even (v / q)"
  from assms False have w: "w = of_int m * q" and fin: "\<not> two_p 1024 \<le> \<bar>of_int m * q\<bar>"
    by (simp_all add: round64_def Let_def b_def q_def m_def split: if_splits)
  have lo: "- 1022 \<le> b" unfolding b_def by (rule binade_ge)
  have hi: "b \<le> 1023"
  proof (rule ccontr)
    assume "\<not> b \<le> 1023"
    then have b: "1024 \<le> b" by simp
    have "\<not> \<bar>v\<bar> < two_p (- 1022)"
    proof
      assume "\<bar>v\<bar> < two_p (- 1022)"
      with False have "binade v = - 1022" by (rule binade_small)
      with b show False by (simp add: b_def)
    qed
    then have "two_p (- 1022) \<le> \<bar>v\<bar>" by simp
    then have "two_p b \<le> \<bar>v\<bar>" unfolding b_def by (rule binade_lower)
    moreover have "two_p 1024 \<le> two_p b" using b by simp
    ultimately have big: "two_p 1024 \<le> \<bar>v\<bar>" by linarith
    show False
    proof (cases "0 < v")
      case True
      with big have "round64 v = PInf" by (simp add: round64_overflow)
      with assms show False by simp
    next
      case neg: False
      with big have "round64 (- v) = PInf" by (simp add: round64_overflow)
      then have "round64 v = NInf" using round64_uminus [of "- v"] by simp
      with assms show False by simp
    qed
  qed
  from significand_upper [OF False] have "\<bar>v / q\<bar> \<le> of_int (2 ^ 53)"
    by (simp add: q_def b_def two_p_53)
  then have m53: "\<bar>m\<bar> \<le> 2 ^ 53" unfolding m_def by (rule round_even_abs_le)
  show ?thesis
  proof (cases "\<bar>m\<bar> < 2 ^ 53")
    case True
    then have "is_double (of_int m * two_p (b - 52))"
      using lo hi by (intro is_doubleI) simp_all
    then show ?thesis by (simp add: w q_def)
  next
    case False
    with m53 have "m = 2 ^ 53 \<or> m = - (2 ^ 53)" by linarith
    moreover have e: "two_p 53 * q = two_p (b + 1)"
      using two_p_add [of 53 "b - 52"] by (simp add: q_def add.commute)
    ultimately have ww: "w = two_p (b + 1) \<or> w = - two_p (b + 1)"
      using e by (auto simp add: w two_p_53)
    then have "\<bar>w\<bar> = two_p (b + 1)" by auto
    with fin have "two_p (b + 1) < two_p 1024" by (simp add: w)
    then have "b + 1 \<le> 1023" by simp
    with lo have "is_double (two_p (b + 1))" by (intro is_double_two_p) simp_all
    with ww show ?thesis by (auto simp add: is_double_uminus)
  qed
qed

lemma mul_d_is_double: "mul_d a b = Fin w \<Longrightarrow> is_double w"
  by (cases a; cases b) (auto simp add: round64_is_double split: if_splits)

text \<open>A finite result of \<^verbatim>\<open>autofunc0\<close> is a double, whatever its arguments are.\<close>

lemma autofunc0_is_double:
  assumes "autofunc0 x0 x1 c0 c1 eps = Fin w"
  shows "is_double w"
proof -
  from assms have "w = 0 \<or> (\<exists>a b. mul_d a b = Fin w)"
    unfolding autofunc0_def by (auto split: if_splits)
  then show ?thesis
    by (auto dest: mul_d_is_double)
qed

text \<open>
  So the result can be the closed form \<open>eps ^ 7 * r ^ 7\<close> of the specification only
  where that real number is itself a double.
\<close>

lemma autofunc0_closed_form_is_double:
  assumes "autofunc0 x0 x1 c0 c1 eps = Fin (e ^ 7 * r ^ 7)"
  shows "is_double (e ^ 7 * r ^ 7)"
  using assms by (rule autofunc0_is_double)

section \<open>Powers at the exponents of the code\<close>

lemma two_p_power: "two_p n ^ k = two_p (n * int k)"
  by (simp add: two_p_def power_int_power')

lemma two_p_sqrt: "sqrt (two_p (2 * n)) = two_p n"
proof -
  have "two_p (2 * n) = (two_p n)\<^sup>2"
    using two_p_power [of n 2] by (simp add: mult.commute)
  then show ?thesis by simp
qed

lemma powr_seven_halves:
  assumes "0 \<le> (d::real)"
  shows "d powr (7 / 2) = sqrt d ^ 7"
proof (cases "d = 0")
  case True
  then show ?thesis by simp
next
  case False
  with assms have pos: "0 < sqrt d" by simp
  have "d powr (7 / 2) = (d powr (1 / 2)) powr 7"
    by (simp add: powr_powr)
  also have "\<dots> = sqrt d powr 7"
    using assms by (simp add: powr_half_sqrt)
  also have "\<dots> = sqrt d ^ 7"
    using pos by simp
  finally show ?thesis .
qed

lemma two_p_powr_seven_halves: "two_p (2 * n) powr (7 / 2) = two_p (7 * n)"
proof -
  have "two_p (2 * n) powr (7 / 2) = sqrt (two_p (2 * n)) ^ 7"
    by (rule powr_seven_halves) simp
  also have "\<dots> = two_p n ^ 7" by (simp only: two_p_sqrt)
  also have "\<dots> = two_p (7 * n)" by (simp add: two_p_power mult.commute)
  finally show ?thesis .
qed

lemma pow_two: "pow (Fin x) 2 = round64 (x\<^sup>2)"
  by simp

lemma pow_seven: "pow (Fin x) 7 = round64 (x ^ 7)"
  by simp

lemma pow_seven_halves: "0 \<le> d \<Longrightarrow> pow (Fin d) (7 / 2) = round64 (d powr (7 / 2))"
  by simp

lemma round64_not_nan [simp]: "round64 v \<noteq> NaN"
  by (simp add: round64_def Let_def)


section \<open>Signs\<close>



text \<open>A square is never negative and never NaN, whatever the rounded difference is.\<close>

lemma pow_two_round64_nonneg: "le_d (Fin 0) (pow (round64 v) 2)"
proof (cases "round64 v")
  case (Fin x)
  have "le_d (Fin 0) (round64 (x\<^sup>2))" by (rule round64_nonneg) simp
  with Fin show ?thesis by simp
qed simp_all

lemma add_d_nonneg:
  assumes "le_d (Fin 0) a" and "le_d (Fin 0) b"
  shows "le_d (Fin 0) (add_d a b)"
proof (cases a)
  case a: (Fin x)
  show ?thesis
  proof (cases b)
    case (Fin y)
    with a assms have "0 \<le> x + y" by simp
    with a Fin show ?thesis by (simp add: round64_nonneg)
  qed (use a assms in simp_all)
next
  case PInf
  with assms show ?thesis by (cases b) simp_all
qed (use assms in simp_all)

lemma pow_seven_halves_nonneg:
  assumes "le_d (Fin 0) a"
  shows "le_d (Fin 0) (pow a (7 / 2))"
  using assms by (cases a) (simp_all add: round64_nonneg)

lemma pow_seven_nonneg:
  assumes "0 \<le> e"
  shows "le_d (Fin 0) (pow (Fin e) 7)"
  using assms by (simp add: round64_nonneg)


lemma mul_d_nonneg:
  assumes "le_d (Fin 0) a" and "le_d (Fin 0) b"
  shows "le_d (Fin 0) (mul_d a b) \<or>
         (mul_d a b = NaN \<and> ((a = PInf \<and> b = Fin 0) \<or> (a = Fin 0 \<and> b = PInf)))"
proof (cases a)
  case a: (Fin x)
  show ?thesis
  proof (cases b)
    case (Fin y)
    with a assms have "0 \<le> x * y" by simp
    with a Fin show ?thesis by (simp add: round64_nonneg)
  qed (use a assms in auto)
next
  case PInf
  with assms show ?thesis by (cases b) auto
qed (use assms in simp_all)


text \<open>The squared distance the code computes from finite coordinates.\<close>

lemma sq_dist_nonneg:
  "le_d (Fin 0)
     (add_d (pow (add_d (neg_d (Fin c0)) (Fin x0)) 2) (pow (add_d (neg_d (Fin c1)) (Fin x1)) 2))"
  by (simp add: add_d_nonneg pow_two_round64_nonneg)

section \<open>The code where nothing rounds\<close>

text \<open>The body with its two literals \<^verbatim>\<open>0.0\<close> and \<^verbatim>\<open>7.0/2.0\<close> evaluated.\<close>

lemma autofunc0_alt:
  "autofunc0 x0 x1 c0 c1 eps =
     (if le_d (sqrt_d (add_d (pow (add_d (neg_d c0) x0) 2) (pow (add_d (neg_d c1) x1) 2)))
           (Fin 0)
      then Fin 0
      else mul_d (pow eps 7)
             (pow (add_d (pow (add_d (neg_d c0) x0) 2) (pow (add_d (neg_d c1) x1) 2))
                (7 / 2)))"
  by (simp add: autofunc0_def del: pow.simps)


text \<open>At the center the guard fires before \<open>eps\<close> is read.\<close>

lemma autofunc0_center: "autofunc0 (Fin c0) (Fin c1) (Fin c0) (Fin c1) eps = Fin 0"
  by (simp add: autofunc0_def)

text \<open>Where nothing rounds, the code computes the closed form of the specification.\<close>

lemma autofunc0_exact:
  assumes "exact_path x0 x1 c0 c1 eps"
  shows "autofunc0 (Fin x0) (Fin x1) (Fin c0) (Fin c1) (Fin eps)
           = Fin (eps ^ 7 * distance x0 x1 c0 c1 ^ 7)"
proof -
  define S where "S = (x0 - c0)\<^sup>2 + (x1 - c1)\<^sup>2"
  define r where "r = distance x0 x1 c0 c1"
  have r: "r = sqrt S" by (simp add: r_def S_def distance_def)
  have S0: "0 \<le> S" by (simp add: S_def)
  have r0: "0 \<le> r" by (simp add: r S0)
  from assms have ex: "is_double (x0 - c0)" "is_double (x1 - c1)"
    "is_double ((x0 - c0)\<^sup>2)" "is_double ((x1 - c1)\<^sup>2)" "is_double S" "is_double r"
    "is_double (eps ^ 7)" "is_double (r ^ 7)" "is_double (eps ^ 7 * r ^ 7)"
    by (simp_all add: exact_path_def S_def r_def)
  have d0: "add_d (neg_d (Fin c0)) (Fin x0) = Fin (x0 - c0)"
    using round64_exact [OF ex(1)] by simp
  have d1: "add_d (neg_d (Fin c1)) (Fin x1) = Fin (x1 - c1)"
    using round64_exact [OF ex(2)] by simp
  have s0: "pow (Fin (x0 - c0)) 2 = Fin ((x0 - c0)\<^sup>2)"
    using round64_exact [OF ex(3)] by (simp only: pow_two)
  have s1: "pow (Fin (x1 - c1)) 2 = Fin ((x1 - c1)\<^sup>2)"
    using round64_exact [OF ex(4)] by (simp only: pow_two)
  have sum: "add_d (Fin ((x0 - c0)\<^sup>2)) (Fin ((x1 - c1)\<^sup>2)) = Fin S"
    using round64_exact [OF ex(5)] by (simp add: S_def)
  have root: "sqrt_d (Fin S) = Fin r"
    using round64_exact [OF ex(6)] S0 by (simp add: r)
  have e7: "pow (Fin eps) 7 = Fin (eps ^ 7)"
    using round64_exact [OF ex(7)] by (simp only: pow_seven)
  have "S powr (7 / 2) = r ^ 7"
    using S0 by (simp only: r powr_seven_halves)
  then have t: "pow (Fin S) (7 / 2) = Fin (r ^ 7)"
    using round64_exact [OF ex(8)] S0 by (simp only: pow_seven_halves)
  have prod: "mul_d (Fin (eps ^ 7)) (Fin (r ^ 7)) = Fin (eps ^ 7 * r ^ 7)"
    using round64_exact [OF ex(9)] by simp
  have val: "autofunc0 (Fin x0) (Fin x1) (Fin c0) (Fin c1) (Fin eps)
      = (if r \<le> 0 then Fin 0 else Fin (eps ^ 7 * r ^ 7))"
    unfolding autofunc0_alt d0 d1 s0 s1 sum root e7 t prod
    by simp
  show ?thesis
  proof (cases "r \<le> 0")
    case True
    with r0 have "r = 0" by simp
    with val show ?thesis by (simp add: r_def)
  next
    case False
    with val show ?thesis by (simp add: r_def)
  qed
qed

lemma exact_path_6_8: "exact_path 6 8 0 0 3"
proof -
  have "sqrt ((6::real)\<^sup>2 + 8\<^sup>2) = sqrt (10\<^sup>2)" by simp
  then have d: "distance 6 8 0 0 = 10"
    by (simp only: distance_def diff_zero real_sqrt_abs abs_numeral)
  show ?thesis
    unfolding exact_path_def d
    by (simp add: is_double_numeral)
qed

section \<open>Evaluation at powers of two\<close>

lemma round64_two_p: "- 1074 \<le> n \<Longrightarrow> n \<le> 1023 \<Longrightarrow> round64 (two_p n) = Fin (two_p n)"
  by (rule round64_exact) (rule is_double_two_p)

lemma round64_two_p_over: "1024 \<le> n \<Longrightarrow> round64 (two_p n) = PInf"
  by (rule round64_overflow) simp

lemma round64_two_p_under: "n \<le> - 1075 \<Longrightarrow> round64 (two_p n) = Fin 0"
  by (rule round64_underflow) simp

lemma round64_1 [simp]: "round64 1 = Fin 1"
  by (rule round64_exact) simp

lemma two_p_square: "(two_p n)\<^sup>2 = two_p (2 * n)"
  using two_p_power [of n 2] by (simp add: mult.commute)

lemma two_p_seventh: "two_p n ^ 7 = two_p (7 * n)"
  using two_p_power [of n 7] by (simp add: mult.commute)

text \<open>One unit away from the center the result is \<^verbatim>\<open>pow(eps, 7) * 1.0\<close>.\<close>

lemma autofunc0_unit:
  "autofunc0 (Fin 1) (Fin 0) (Fin 0) (Fin 0) eps = mul_d (pow eps 7) (Fin 1)"
proof -
  have "add_d (pow (add_d (neg_d (Fin 0)) (Fin 1)) 2) (pow (add_d (neg_d (Fin 0)) (Fin 0)) 2)
      = Fin 1"
    by simp
  then show ?thesis
    unfolding autofunc0_alt by simp
qed

text \<open>On the first axis at \<open>2\<^sup>n\<close>, from either side.\<close>

lemma sq_dist_axis:
  assumes "- 1074 \<le> n" and "n \<le> 1023"
  shows "add_d (pow (add_d (neg_d (Fin 0)) (Fin (two_p n))) 2)
           (pow (add_d (neg_d (Fin 0)) (Fin 0)) 2)
         = add_d (round64 (two_p (2 * n))) (Fin 0)"
  using assms by (simp add: round64_two_p two_p_square)

lemma sq_dist_axis_swapped:
  assumes "- 1074 \<le> n" and "n \<le> 1023"
  shows "add_d (pow (add_d (neg_d (Fin (two_p n))) (Fin 0)) 2)
           (pow (add_d (neg_d (Fin 0)) (Fin 0)) 2)
         = add_d (round64 (two_p (2 * n))) (Fin 0)"
proof -
  have "round64 (- two_p n) = Fin (- two_p n)"
    using assms by (simp add: round64_uminus round64_two_p)
  then show ?thesis by (simp add: two_p_square)
qed

lemma autofunc0_tiny_distance:
  "autofunc0 (Fin (two_p (- 600))) (Fin 0) (Fin 0) (Fin 0) eps = Fin 0"
proof -
  have "add_d (round64 (two_p (2 * - 600))) (Fin 0) = Fin 0"
    by (simp add: round64_two_p_under)
  then show ?thesis
    unfolding autofunc0_alt by (simp only: sq_dist_axis) simp
qed

lemma autofunc0_overflow_underflow:
  "autofunc0 (Fin (two_p (- 200))) (Fin 0) (Fin 0) (Fin 0) (Fin (two_p 200)) = NaN"
  "autofunc0 (Fin 0) (Fin 0) (Fin (two_p (- 200))) (Fin 0) (Fin (two_p 200)) = NaN"
proof -
  have D: "add_d (round64 (two_p (2 * - 200))) (Fin 0) = Fin (two_p (2 * - 200))"
    by (simp add: round64_two_p)
  have r: "sqrt_d (Fin (two_p (2 * - 200))) = Fin (two_p (- 200))"
    by (simp only: sqrt_d.simps two_p_sqrt) (simp add: round64_two_p)
  have t: "pow (Fin (two_p (2 * - 200))) (7 / 2) = Fin 0"
    by (simp only: pow_seven_halves [OF two_p_nonneg] two_p_powr_seven_halves)
       (simp add: round64_two_p_under)
  have e: "pow (Fin (two_p 200)) 7 = PInf"
    by (simp only: pow_seven two_p_seventh) (simp add: round64_two_p_over)
  show "autofunc0 (Fin (two_p (- 200))) (Fin 0) (Fin 0) (Fin 0) (Fin (two_p 200)) = NaN"
    unfolding autofunc0_alt by (simp only: sq_dist_axis D r t e) simp
  show "autofunc0 (Fin 0) (Fin 0) (Fin (two_p (- 200))) (Fin 0) (Fin (two_p 200)) = NaN"
    unfolding autofunc0_alt by (simp only: sq_dist_axis_swapped D r t e) simp
qed

lemma autofunc0_zero_times_inf:
  "autofunc0 (Fin (two_p 600)) (Fin 0) (Fin 0) (Fin 0) (Fin 0) = NaN"
proof -
  have "add_d (round64 (two_p (2 * 600))) (Fin 0) = PInf"
    by (simp add: round64_two_p_over)
  then show ?thesis
    unfolding autofunc0_alt by (simp only: sq_dist_axis) simp
qed

lemma round64_two_p_60_plus_1: "round64 (1 + two_p 60) = Fin (two_p 60)"
proof -
  have v: "1 + two_p 60 = 1152921504606846977" by (simp add: two_p_nat)
  have q: "two_p 8 = 256" by (simp add: two_p_nat)
  have "two_p 60 \<le> \<bar>1 + two_p 60\<bar>" by simp
  moreover have "\<bar>1 + two_p 60\<bar> < two_p (60 + 1)"
    by (simp add: two_p_nat)
  ultimately have "round64 (1 + two_p 60)
      = Fin (of_int (round_even ((1 + two_p 60) / two_p (60 - 52))) * two_p (60 - 52))"
    by (rule round64_in_binade) simp_all
  moreover have "round_even (1152921504606846977 / 256) = 4503599627370496"
    by (simp add: round_even_def Let_def)
  ultimately show ?thesis
    by (simp add: v q) (simp add: two_p_nat)
qed

section \<open>Further facts for the claims\<close>

lemma exact_path_3_4: "exact_path 3 4 0 0 2"
proof -
  have "sqrt ((3::real)\<^sup>2 + 4\<^sup>2) = sqrt (5\<^sup>2)" by simp
  then have d: "distance 3 4 0 0 = 5"
    by (simp only: distance_def diff_zero real_sqrt_abs abs_numeral)
  show ?thesis
    unfolding exact_path_def d
    by (simp add: is_double_numeral)
qed




lemma exact_path_6_8_6: "exact_path 6 8 0 0 6"
proof -
  have "sqrt ((6::real)\<^sup>2 + 8\<^sup>2) = sqrt (10\<^sup>2)" by simp
  then have d: "distance 6 8 0 0 = 10"
    by (simp only: distance_def diff_zero real_sqrt_abs abs_numeral)
  show ?thesis
    unfolding exact_path_def d
    by (simp add: is_double_numeral)
qed

lemma distance_6_8: "distance 6 8 0 0 = 10"
proof -
  have "sqrt ((6::real)\<^sup>2 + 8\<^sup>2) = sqrt (10\<^sup>2)" by simp
  then show ?thesis
    by (simp only: distance_def diff_zero real_sqrt_abs abs_numeral)
qed

lemma distance_unit: "distance 1 0 0 0 = 1"
  by (simp add: distance_def)


lemma round64_neg_1 [simp]: "round64 (- 1) = Fin (- 1)"
  using round64_uminus [of 1] by simp



text \<open>Exchanging the two operands of a difference negates it, also after rounding.\<close>

lemma add_d_neg_swap: "add_d (neg_d c) x = neg_d (add_d (neg_d x) c)"
proof (cases c)
  case c: (Fin a)
  show ?thesis
  proof (cases x)
    case (Fin b)
    have "round64 (- a + b) = neg_d (round64 (- b + a))"
      using round64_uminus [of "- b + a"] by simp
    with c Fin show ?thesis by simp
  qed (use c in simp_all)
next
  case PInf
  then show ?thesis by (cases x) simp_all
next
  case NInf
  then show ?thesis by (cases x) simp_all
next
  case NaN
  then show ?thesis by (cases x) simp_all
qed

lemma pow_two_neg: "pow (neg_d a) 2 = pow a 2"
  by (cases a) simp_all


section \<open>The rounding at two known points\<close>

text \<open>The double nearest to \<open>1/10\<close>, the one C writes \<^verbatim>\<open>0.1\<close>.\<close>

lemma round64_tenth: "round64 (1 / 10) = Fin (3602879701896397 / 36028797018963968)"
proof -
  have lo: "two_p (- 4) = 1 / 16" using two_p_diff [of 0 4] by (simp add: two_p_nat)
  have hi: "two_p (- 3) = 1 / 8" using two_p_diff [of 0 3] by (simp add: two_p_nat)
  have q: "two_p (- 56) = 1 / 72057594037927936"
    using two_p_diff [of 0 56] by (simp add: two_p_nat)
  have "two_p (- 4) \<le> \<bar>1 / 10 :: real\<bar>" by (simp add: lo)
  moreover have "\<bar>1 / 10 :: real\<bar> < two_p (- 4 + 1)" by (simp add: hi)
  ultimately have "round64 (1 / 10)
      = Fin (of_int (round_even ((1 / 10) / two_p (- 4 - 52))) * two_p (- 4 - 52))"
    by (rule round64_in_binade) simp_all
  moreover have "round_even (72057594037927936 / 10) = 7205759403792794"
    by (simp add: round_even_def Let_def)
  ultimately show ?thesis by (simp add: q)
qed

text \<open>
  Halfway between the largest finite double and \<open>2\<^sup>1\<^sup>0\<^sup>2\<^sup>4\<close> the tie goes to the even
  significand, which is out of range: the result is \<open>+\<infinity>\<close>.
\<close>

lemma round64_max_tie: "round64 (two_p 1024 - two_p 970) = PInf"
proof -
  define v where "v = two_p 1024 - two_p 970"
  have a: "two_p 1024 = 2 * two_p 1023" using two_p_add [of 1 1023] by (simp add: two_p_nat)
  have b: "two_p 1023 = two_p 53 * two_p 970" using two_p_add [of 53 970] by simp
  have c: "two_p 971 = 2 * two_p 970" using two_p_add [of 1 970] by (simp add: two_p_nat)
  have p: "0 < two_p 970" by simp
  have k: "two_p 53 = 9007199254740992" by (simp add: two_p_nat)
  have v: "v = (2 * 9007199254740992 - 1) * two_p 970" by (simp add: v_def a b k algebra_simps)
  have vpos: "0 < v" using p by (simp add: v)
  have "two_p 1023 \<le> \<bar>v\<bar>" using p by (simp add: v b k)
  moreover have "\<bar>v\<bar> < two_p (1023 + 1)" using p by (simp add: v_def)
  ultimately have bin: "binade v = 1023" by (rule binade_eq) simp
  have t: "v / two_p 971 = 18014398509481983 / 2" by (simp add: v c)
  have "round_even (18014398509481983 / 2) = 9007199254740992"
    by (simp add: round_even_def Let_def)
  then have "round_even (v / two_p 971) = 9007199254740992"
    by (simp only: t)
  then have "of_int (round_even (v / two_p 971)) * two_p 971 = two_p 1024"
    by (simp add: a b c k)
  with vpos show ?thesis
    unfolding v_def [symmetric] by (simp add: round64_def Let_def bin)
qed

section \<open>The claims\<close>

subsection \<open>C1: the closed form at a positive distance\<close>

text \<open>
  C1 as the specification states it: for every input whose Euclidean distance
  \<open>r = sqrt ((x0 - c0)\<^sup>2 + (x1 - c1)\<^sup>2)\<close> is strictly positive, the result is
  \<open>eps ^ 7 * r ^ 7\<close>.  This fails at the doubles \<open>x0 = 2\<^sup>-\<^sup>6\<^sup>0\<^sup>0\<close>, \<open>eps = 2\<^sup>6\<^sup>0\<^sup>0\<close> with
  the other coordinates zero: the distance is \<open>2\<^sup>-\<^sup>6\<^sup>0\<^sup>0\<close> and \<open>eps ^ 7 * r ^ 7 = 1\<close>, but
  \<^verbatim>\<open>pow(x0, 2)\<close> underflows to zero, the guard fires and the code returns \<open>0\<close>.
\<close>

theorem autofunc0_underflow_counterexample:
  "is_double (two_p (- 600)) \<and> is_double (two_p 600) \<and>
   0 < distance (two_p (- 600)) 0 0 0 \<and>
   two_p 600 ^ 7 * distance (two_p (- 600)) 0 0 0 ^ 7 = 1 \<and>
   autofunc0 (Fin (two_p (- 600))) (Fin 0) (Fin 0) (Fin 0) (Fin (two_p 600)) = Fin 0"
proof -
  have d: "distance (two_p (- 600)) 0 0 0 = two_p (- 600)"
    by (simp add: distance_def)
  have "two_p 600 ^ 7 * two_p (- 600) ^ 7 = (two_p 600 * two_p (- 600)) ^ 7"
    by (simp only: power_mult_distrib)
  also have "two_p 600 * two_p (- 600) = 1"
    using two_p_add [of 600 "- 600"] by simp
  finally have "two_p 600 ^ 7 * two_p (- 600) ^ 7 = 1" by simp
  then show ?thesis
    by (simp add: d autofunc0_tiny_distance is_double_two_p)
qed

text \<open>
  C1, amended.  For every finite input at which no operation of the code rounds
  (\<open>exact_path\<close>: every intermediate result is a double) and whose distance \<open>r\<close> is
  strictly positive, \<^verbatim>\<open>autofunc0(x0, x1, c0, c1, eps)\<close> is \<open>eps ^ 7 * r ^ 7\<close>.
\<close>

theorem autofunc0_exact_positive_distance:
  assumes "exact_path x0 x1 c0 c1 eps" and "0 < distance x0 x1 c0 c1"
  shows "autofunc0 (Fin x0) (Fin x1) (Fin c0) (Fin c1) (Fin eps)
           = Fin (eps ^ 7 * distance x0 x1 c0 c1 ^ 7)"
  using assms(1) by (rule autofunc0_exact)

theorem autofunc0_exact_positive_distance_witness:
  "exact_path 6 8 0 0 3 \<and> 0 < distance 6 8 0 0 \<and>
   autofunc0 (Fin 6) (Fin 8) (Fin 0) (Fin 0) (Fin 3) = Fin (3 ^ 7 * distance 6 8 0 0 ^ 7)"
proof -
  have h: "0 < distance 6 8 0 0" by (simp add: distance_6_8)
  from autofunc0_exact_positive_distance [OF exact_path_6_8 h] exact_path_6_8 h
  show ?thesis by blast
qed

subsection \<open>C2: zero at the center\<close>

text \<open>
  C2.  Evaluating the kernel at the center itself gives exactly zero, for every finite
  \<open>c0\<close> and \<open>c1\<close> and every \<open>eps\<close>, finite or not: the two differences are exactly
  zero, so is the root, the guard fires and \<open>eps\<close> is never read.
\<close>

theorem autofunc0_at_center: "autofunc0 (Fin c0) (Fin c1) (Fin c0) (Fin c1) eps = Fin 0"
  by (simp add: autofunc0_def)

subsection \<open>C3: the sign of the result for any \<open>eps\<close>\<close>

text \<open>
  C3 as the specification states it: the result is non-negative for every real \<open>eps\<close>,
  negative ones included.  This fails at \<open>eps = - 1\<close>, one unit away from the center,
  where the code returns \<open>- 1\<close>.
\<close>

theorem autofunc0_negative_eps_counterexample:
  "autofunc0 (Fin 1) (Fin 0) (Fin 0) (Fin 0) (Fin (- 1)) = Fin (- 1) \<and>
   \<not> le_d (Fin 0) (autofunc0 (Fin 1) (Fin 0) (Fin 0) (Fin 0) (Fin (- 1)))"
  by (simp add: autofunc0_unit)

text \<open>
  C3, amended.  For finite points and every \<open>eps\<close> that is not negative, the result is
  not negative: \<^verbatim>\<open>autofunc0(...) < 0\<close> is false whenever \<^verbatim>\<open>eps < 0\<close> is false.
\<close>

theorem autofunc0_negative_only_for_negative_eps:
  assumes "\<not> lt_d eps (Fin 0)"
  shows "\<not> lt_d (autofunc0 (Fin x0) (Fin x1) (Fin c0) (Fin c1) eps) (Fin 0)"
proof -
  define D where "D = add_d (pow (add_d (neg_d (Fin c0)) (Fin x0)) 2)
    (pow (add_d (neg_d (Fin c1)) (Fin x1)) 2)"
  have D: "le_d (Fin 0) D" unfolding D_def by (rule sq_dist_nonneg)
  then have T: "le_d (Fin 0) (pow D (7 / 2))" by (rule pow_seven_halves_nonneg)
  have "\<not> lt_d (mul_d (pow eps 7) (pow D (7 / 2))) (Fin 0)"
  proof (cases eps)
    case (Fin e)
    with assms have "0 \<le> e" by simp
    then have "le_d (Fin 0) (pow (Fin e) 7)" by (rule pow_seven_nonneg)
    from mul_d_nonneg [OF this T] Fin show ?thesis
      by (cases "mul_d (pow (Fin e) 7) (pow D (7 / 2))") auto
  next
    case PInf
    have "le_d (Fin 0) (pow PInf 7)" by simp
    from mul_d_nonneg [OF this T] PInf show ?thesis
      by (cases "mul_d (pow PInf 7) (pow D (7 / 2))") auto
  next
    case NInf
    with assms show ?thesis by simp
  next
    case NaN
    then show ?thesis by simp
  qed
  then show ?thesis
    unfolding autofunc0_alt D_def by simp
qed

theorem autofunc0_negative_only_for_negative_eps_witness:
  "\<not> lt_d (Fin 3) (Fin 0) \<and>
   \<not> lt_d (autofunc0 (Fin 6) (Fin 8) (Fin 0) (Fin 0) (Fin 3)) (Fin 0)"
proof -
  have h: "\<not> lt_d (Fin 3) (Fin 0)" by simp
  from autofunc0_negative_only_for_negative_eps [OF h] h show ?thesis by blast
qed

subsection \<open>C4: non-negative \<open>eps\<close>\<close>

text \<open>
  C4 as the specification states it: for every input with \<open>eps \<ge> 0\<close> the result is
  \<open>\<ge> 0\<close>.  This fails at the doubles \<open>x0 = 2\<^sup>6\<^sup>0\<^sup>0\<close>, \<open>eps = 0\<close> with the other
  coordinates zero: the squared distance overflows to \<open>+\<infinity>\<close>, \<^verbatim>\<open>pow(eps, 7)\<close> is
  zero, their product is NaN, and \<^verbatim>\<open>NaN >= 0\<close> is false.
\<close>

theorem autofunc0_zero_times_inf_counterexample:
  "is_double (two_p 600) \<and> (0::real) \<le> 0 \<and>
   autofunc0 (Fin (two_p 600)) (Fin 0) (Fin 0) (Fin 0) (Fin 0) = NaN \<and>
   \<not> le_d (Fin 0) (autofunc0 (Fin (two_p 600)) (Fin 0) (Fin 0) (Fin 0) (Fin 0))"
  by (simp add: autofunc0_zero_times_inf is_double_two_p)

text \<open>
  C4, amended.  For every finite input with \<open>eps \<ge> 0\<close> the result is \<open>\<ge> 0\<close>
  (\<open>+\<infinity>\<close> included) or NaN, and it is NaN only when one of the two factors
  \<^verbatim>\<open>pow(eps, 7)\<close> and \<^verbatim>\<open>pow(..., 7.0/2.0)\<close> has overflowed to \<open>+\<infinity>\<close> while the
  other is zero.
\<close>

theorem autofunc0_nonneg_or_nan:
  assumes "0 \<le> e"
  shows "le_d (Fin 0) (autofunc0 (Fin x0) (Fin x1) (Fin c0) (Fin c1) (Fin e)) \<or>
         (autofunc0 (Fin x0) (Fin x1) (Fin c0) (Fin c1) (Fin e) = NaN \<and>
          ((pow (Fin e) 7 = PInf \<and>
            pow (add_d (pow (add_d (neg_d (Fin c0)) (Fin x0)) 2)
                       (pow (add_d (neg_d (Fin c1)) (Fin x1)) 2)) (7 / 2) = Fin 0) \<or>
           (pow (Fin e) 7 = Fin 0 \<and>
            pow (add_d (pow (add_d (neg_d (Fin c0)) (Fin x0)) 2)
                       (pow (add_d (neg_d (Fin c1)) (Fin x1)) 2)) (7 / 2) = PInf)))"
proof -
  define D where "D = add_d (pow (add_d (neg_d (Fin c0)) (Fin x0)) 2)
    (pow (add_d (neg_d (Fin c1)) (Fin x1)) 2)"
  have "le_d (Fin 0) D" unfolding D_def by (rule sq_dist_nonneg)
  then have T: "le_d (Fin 0) (pow D (7 / 2))" by (rule pow_seven_halves_nonneg)
  from assms have E: "le_d (Fin 0) (pow (Fin e) 7)" by (rule pow_seven_nonneg)
  show ?thesis
  proof (cases "le_d (sqrt_d D) (Fin 0)")
    case True
    then show ?thesis
      unfolding autofunc0_alt D_def [symmetric] by simp
  next
    case False
    with mul_d_nonneg [OF E T] show ?thesis
      unfolding autofunc0_alt D_def [symmetric] by (simp only: if_False)
  qed
qed

theorem autofunc0_nonneg_or_nan_witness:
  "(0::real) \<le> 2 \<and> le_d (Fin 0) (autofunc0 (Fin 3) (Fin 4) (Fin 0) (Fin 0) (Fin 2))"
proof -
  have h: "(0::real) \<le> 2" by simp
  have "autofunc0 (Fin 3) (Fin 4) (Fin 0) (Fin 0) (Fin 2) \<noteq> NaN"
    by (simp add: autofunc0_exact [OF exact_path_3_4])
  with autofunc0_nonneg_or_nan [OF h, of 3 4 0 0] h show ?thesis by blast
qed

subsection \<open>C5: negative \<open>eps\<close>\<close>




subsection \<open>C6: scaling \<open>eps\<close>\<close>

text \<open>
  C6 as the specification states it: at a strictly positive distance,
  \<^verbatim>\<open>autofunc0(x0, x1, c0, c1, k*eps) == k^7 * autofunc0(x0, x1, c0, c1, eps)\<close> for
  every real \<open>k\<close>.  This fails at the doubles \<open>k = 1/2\<close>, \<open>eps = 2\<^sup>1\<^sup>4\<^sup>7\<close>, one unit away
  from the center: the left side is \<open>2\<^sup>1\<^sup>0\<^sup>2\<^sup>2\<close>, while on the right \<^verbatim>\<open>pow(eps, 7)\<close>
  overflows and the product is \<open>+\<infinity>\<close>.
\<close>

theorem autofunc0_scaling_overflow_counterexample:
  "is_double (two_p (- 1)) \<and> is_double (two_p 147) \<and> 0 < distance 1 0 0 0 \<and>
   autofunc0 (Fin 1) (Fin 0) (Fin 0) (Fin 0) (mul_d (Fin (two_p (- 1))) (Fin (two_p 147)))
     = Fin (two_p 1022) \<and>
   mul_d (pow (Fin (two_p (- 1))) 7)
     (autofunc0 (Fin 1) (Fin 0) (Fin 0) (Fin 0) (Fin (two_p 147))) = PInf \<and>
   \<not> eq_d (Fin (two_p 1022)) PInf"
proof -
  have "two_p (- 1) * two_p 147 = two_p 146"
    using two_p_add [of "- 1" 147] by simp
  then have k: "mul_d (Fin (two_p (- 1))) (Fin (two_p 147)) = Fin (two_p 146)"
    by (simp add: round64_two_p)
  have "two_p 146 ^ 7 = two_p 1022" by (simp add: two_p_seventh)
  then have l: "pow (Fin (two_p 146)) 7 = Fin (two_p 1022)"
    by (simp only: pow_seven) (simp add: round64_two_p)
  have "two_p 147 ^ 7 = two_p 1029" by (simp add: two_p_seventh)
  then have r: "pow (Fin (two_p 147)) 7 = PInf"
    by (simp only: pow_seven) (simp add: round64_two_p_over)
  have "two_p (- 1) ^ 7 = two_p (- 7)" by (simp add: two_p_seventh)
  then have s: "pow (Fin (two_p (- 1))) 7 = Fin (two_p (- 7))"
    by (simp only: pow_seven) (simp add: round64_two_p)
  have "two_p 1022 * 1 = two_p 1022" by simp
  then have m: "mul_d (Fin (two_p 1022)) (Fin 1) = Fin (two_p 1022)"
    by (simp add: round64_two_p)
  have i: "is_double (two_p (- 1))" "is_double (two_p 147)"
    by (simp_all add: is_double_two_p)
  show ?thesis
    by (simp only: autofunc0_unit k l r s m distance_unit i) simp
qed

text \<open>
  C6, amended.  At a strictly positive distance, where no operation rounds for \<open>eps\<close>
  nor for \<open>k * eps\<close>, and \<open>k * eps\<close> and \<open>k ^ 7\<close> are doubles, the result for
  \<^verbatim>\<open>k*eps\<close> is \<^verbatim>\<open>pow(k, 7)\<close> times the result for \<open>eps\<close>.
\<close>

theorem autofunc0_scaling_exact:
  assumes "exact_path x0 x1 c0 c1 eps" and "exact_path x0 x1 c0 c1 (k * eps)"
    and "is_double (k * eps)" and "is_double (k ^ 7)" and "0 < distance x0 x1 c0 c1"
  shows "autofunc0 (Fin x0) (Fin x1) (Fin c0) (Fin c1) (mul_d (Fin k) (Fin eps))
           = mul_d (pow (Fin k) 7) (autofunc0 (Fin x0) (Fin x1) (Fin c0) (Fin c1) (Fin eps))"
proof -
  define r where "r = distance x0 x1 c0 c1"
  have ke: "mul_d (Fin k) (Fin eps) = Fin (k * eps)"
    using round64_exact [OF assms(3)] by simp
  have k7: "pow (Fin k) 7 = Fin (k ^ 7)"
    using round64_exact [OF assms(4)] by (simp only: pow_seven)
  from assms(2) have "is_double ((k * eps) ^ 7 * r ^ 7)"
    by (simp add: exact_path_def r_def)
  then have "round64 ((k * eps) ^ 7 * r ^ 7) = Fin ((k * eps) ^ 7 * r ^ 7)"
    by (rule round64_exact)
  moreover have "(k * eps) ^ 7 * r ^ 7 = k ^ 7 * (eps ^ 7 * r ^ 7)"
    by (simp add: power_mult_distrib)
  ultimately have "round64 (k ^ 7 * (eps ^ 7 * r ^ 7)) = Fin ((k * eps) ^ 7 * r ^ 7)"
    by (simp only:)
  then have "mul_d (Fin (k ^ 7)) (Fin (eps ^ 7 * r ^ 7)) = Fin ((k * eps) ^ 7 * r ^ 7)"
    by simp
  then show ?thesis
    by (simp only: ke k7 autofunc0_exact [OF assms(1)] autofunc0_exact [OF assms(2)] r_def)
qed

theorem autofunc0_scaling_exact_witness:
  "exact_path 6 8 0 0 3 \<and> exact_path 6 8 0 0 (2 * 3) \<and> is_double (2 * 3) \<and>
   is_double (2 ^ 7) \<and> 0 < distance 6 8 0 0 \<and>
   autofunc0 (Fin 6) (Fin 8) (Fin 0) (Fin 0) (mul_d (Fin 2) (Fin 3))
     = mul_d (pow (Fin 2) 7) (autofunc0 (Fin 6) (Fin 8) (Fin 0) (Fin 0) (Fin 3))"
proof -
  have h2: "exact_path 6 8 0 0 (2 * 3)" using exact_path_6_8_6 by simp
  have h3: "is_double (2 * 3)" by (simp add: is_double_numeral)
  have h4: "is_double (2 ^ 7)" by (simp add: is_double_numeral)
  have h5: "0 < distance 6 8 0 0" by (simp add: distance_6_8)
  from autofunc0_scaling_exact [OF exact_path_6_8 h2 h3 h4 h5] exact_path_6_8 h2 h3 h4 h5
  show ?thesis by blast
qed

subsection \<open>C7: exchanging the point and the center\<close>

text \<open>
  C7 as the specification states it:
  \<^verbatim>\<open>autofunc0(x0, x1, c0, c1, eps) == autofunc0(c0, c1, x0, x1, eps)\<close> for every
  input.  This fails at the doubles \<open>x0 = 2\<^sup>-\<^sup>2\<^sup>0\<^sup>0\<close>, \<open>eps = 2\<^sup>2\<^sup>0\<^sup>0\<close> with the other
  coordinates zero: \<^verbatim>\<open>pow(eps, 7)\<close> overflows, the distance term underflows to zero,
  both calls return NaN, and \<^verbatim>\<open>NaN == NaN\<close> is false.
\<close>

theorem autofunc0_symmetry_nan_counterexample:
  "is_double (two_p (- 200)) \<and> is_double (two_p 200) \<and>
   autofunc0 (Fin (two_p (- 200))) (Fin 0) (Fin 0) (Fin 0) (Fin (two_p 200)) = NaN \<and>
   autofunc0 (Fin 0) (Fin 0) (Fin (two_p (- 200))) (Fin 0) (Fin (two_p 200)) = NaN \<and>
   \<not> eq_d (autofunc0 (Fin (two_p (- 200))) (Fin 0) (Fin 0) (Fin 0) (Fin (two_p 200)))
           (autofunc0 (Fin 0) (Fin 0) (Fin (two_p (- 200))) (Fin 0) (Fin (two_p 200)))"
  by (simp add: autofunc0_overflow_underflow is_double_two_p)

text \<open>
  C7, amended.  For every input, exchanging the evaluation point and the center gives
  the same double, and the two results compare equal under \<^verbatim>\<open>==\<close> unless that double
  is NaN.
\<close>

theorem autofunc0_symmetric:
  "autofunc0 x0 x1 c0 c1 eps = autofunc0 c0 c1 x0 x1 eps \<and>
   (eq_d (autofunc0 x0 x1 c0 c1 eps) (autofunc0 c0 c1 x0 x1 eps)
      \<longleftrightarrow> autofunc0 x0 x1 c0 c1 eps \<noteq> NaN)"
proof -
  have "pow (add_d (neg_d c0) x0) 2 = pow (add_d (neg_d x0) c0) 2"
    by (simp only: add_d_neg_swap [of c0 x0] pow_two_neg)
  moreover have "pow (add_d (neg_d c1) x1) 2 = pow (add_d (neg_d x1) c1) 2"
    by (simp only: add_d_neg_swap [of c1 x1] pow_two_neg)
  ultimately have eq: "autofunc0 x0 x1 c0 c1 eps = autofunc0 c0 c1 x0 x1 eps"
    unfolding autofunc0_def by (simp only:)
  show ?thesis
    by (cases "autofunc0 c0 c1 x0 x1 eps") (simp_all add: eq)
qed

theorem autofunc0_symmetric_witness:
  "autofunc0 (Fin 3) (Fin 4) (Fin 0) (Fin 0) (Fin 2)
     = autofunc0 (Fin 0) (Fin 0) (Fin 3) (Fin 4) (Fin 2) \<and>
   eq_d (autofunc0 (Fin 3) (Fin 4) (Fin 0) (Fin 0) (Fin 2))
        (autofunc0 (Fin 0) (Fin 0) (Fin 3) (Fin 4) (Fin 2))"
proof -
  have "autofunc0 (Fin 3) (Fin 4) (Fin 0) (Fin 0) (Fin 2) \<noteq> NaN"
    by (simp add: autofunc0_exact [OF exact_path_3_4])
  with autofunc0_symmetric [of "Fin 3" "Fin 4" "Fin 0" "Fin 0" "Fin 2"]
  show ?thesis by blast
qed

subsection \<open>C8: a concrete value\<close>

text \<open>
  C8.  \<^verbatim>\<open>autofunc0(3, 4, 0, 0, 2.0)\<close> is \<open>10000000\<close>: the distance is \<open>5\<close>, and
  \<open>2 ^ 7 * 5 ^ 7 = 128 * 78125\<close>; every intermediate result is a double.
\<close>

theorem autofunc0_3_4_0_0_2:
  "autofunc0 (Fin 3) (Fin 4) (Fin 0) (Fin 0) (Fin 2.0) = Fin 10000000"
proof -
  have "sqrt ((3::real)\<^sup>2 + 4\<^sup>2) = sqrt (5\<^sup>2)" by simp
  then have "distance 3 4 0 0 = 5"
    by (simp only: distance_def diff_zero real_sqrt_abs abs_numeral)
  with autofunc0_exact [OF exact_path_3_4] show ?thesis by simp
qed

subsection \<open>C9: the guard\<close>




subsection \<open>C10: translating the point and the center\<close>

text \<open>
  C10 as stated: for every translation \<open>(t0, t1)\<close>,
  \<^verbatim>\<open>autofunc0(x0+t0, x1+t1, c0+t0, c1+t1, eps) == autofunc0(x0, x1, c0, c1, eps)\<close>.
  This fails at \<open>x0 = 1\<close>, \<open>c0 = 0\<close>, \<open>t0 = 2\<^sup>6\<^sup>0\<close>, \<open>eps = 1\<close> with the other
  coordinates zero: \<^verbatim>\<open>1 + t0\<close> rounds to \<open>2\<^sup>6\<^sup>0\<close>, the translated point is the translated
  center and the result is \<open>0\<close>, while the untranslated result is \<open>1\<close>.
\<close>

theorem autofunc0_translation_counterexample:
  "is_double (two_p 60) \<and>
   autofunc0 (add_d (Fin 1) (Fin (two_p 60))) (add_d (Fin 0) (Fin 0))
             (add_d (Fin 0) (Fin (two_p 60))) (add_d (Fin 0) (Fin 0)) (Fin 1) = Fin 0 \<and>
   autofunc0 (Fin 1) (Fin 0) (Fin 0) (Fin 0) (Fin 1) = Fin 1"
proof -
  have a: "add_d (Fin 1) (Fin (two_p 60)) = Fin (two_p 60)"
    by (simp add: round64_two_p_60_plus_1)
  have b: "add_d (Fin 0) (Fin (two_p 60)) = Fin (two_p 60)"
    by (simp add: round64_two_p)
  have c: "add_d (Fin 0) (Fin 0) = Fin 0" by simp
  have i: "is_double (two_p 60)" by (simp add: is_double_two_p)
  show ?thesis
    by (simp only: a b c i autofunc0_center autofunc0_unit) simp
qed

text \<open>
  C10, amended.  For finite coordinates and every \<open>eps\<close>, a translation \<open>(t0, t1)\<close>
  whose four sums \<^verbatim>\<open>x0+t0\<close>, \<^verbatim>\<open>x1+t1\<close>, \<^verbatim>\<open>c0+t0\<close>, \<^verbatim>\<open>c1+t1\<close> are computed
  without rounding does not change the result.
\<close>

theorem autofunc0_translation_exact:
  assumes "is_double (x0 + t0)" and "is_double (x1 + t1)"
    and "is_double (c0 + t0)" and "is_double (c1 + t1)"
  shows "autofunc0 (add_d (Fin x0) (Fin t0)) (add_d (Fin x1) (Fin t1))
                   (add_d (Fin c0) (Fin t0)) (add_d (Fin c1) (Fin t1)) eps
           = autofunc0 (Fin x0) (Fin x1) (Fin c0) (Fin c1) eps"
proof -
  have a: "add_d (Fin x0) (Fin t0) = Fin (x0 + t0)" "add_d (Fin x1) (Fin t1) = Fin (x1 + t1)"
    "add_d (Fin c0) (Fin t0) = Fin (c0 + t0)" "add_d (Fin c1) (Fin t1) = Fin (c1 + t1)"
    using assms by (simp_all add: round64_exact)
  have d: "add_d (neg_d (Fin (c0 + t0))) (Fin (x0 + t0)) = add_d (neg_d (Fin c0)) (Fin x0)"
    "add_d (neg_d (Fin (c1 + t1))) (Fin (x1 + t1)) = add_d (neg_d (Fin c1)) (Fin x1)"
    by simp_all
  show ?thesis
    unfolding autofunc0_def a d by (rule refl)
qed

theorem autofunc0_translation_exact_witness:
  "is_double (3 + 1) \<and> is_double (4 + 2) \<and> is_double (0 + 1) \<and> is_double (0 + 2) \<and>
   autofunc0 (add_d (Fin 3) (Fin 1)) (add_d (Fin 4) (Fin 2))
             (add_d (Fin 0) (Fin 1)) (add_d (Fin 0) (Fin 2)) (Fin 2)
     = autofunc0 (Fin 3) (Fin 4) (Fin 0) (Fin 0) (Fin 2)"
proof -
  have h: "is_double (3 + 1)" "is_double (4 + 2)" "is_double (0 + 1)" "is_double (0 + 2)"
    by (simp_all add: is_double_numeral)
  from autofunc0_translation_exact [OF h] h show ?thesis by blast
qed

end
